theory Spec2Isabelle
  imports Main "HOL-Library.Sublist" "HOL-Library.Char_ord" "HOL-Library.List_Lexorder"
    "HOL-Library.Product_Lexorder"
begin

section \<open>Data model\<close>

text \<open>
  The program (\<^verbatim>\<open>analyz.py\<close>) works on pandas data frames. A frame is modelled by its
  column labels, in order, and its rows, in order; a row gives the cell stored under every
  label (a label that a record does not carry holds \<open>NaN\<close>, as in a frame built from a list
  of dictionaries).

  A cell is the scalar stored in the frame: a text, an integer, Python's \<open>None\<close>, the
  missing value \<open>NaN\<close>, a timestamp or the missing timestamp \<open>NaT\<close>. A timestamp is
  represented by the text that \<^verbatim>\<open>str\<close> prints for it. Floating-point cells and nested
  values are not modelled. Characters are code points below 256, one \<open>char\<close> each.
\<close>

datatype cell = Str string | Num int | PyNone | NaN | Time string | NaT

type_synonym row = "string \<Rightarrow> cell"

record dataframe =
  columns :: "string list"
  rows :: "row list"

text \<open>A ranking table has the three columns \<^verbatim>\<open>type\<close>, \<^verbatim>\<open>key\<close>, \<^verbatim>\<open>count\<close>; a row is a triple.\<close>

type_synonym ranked = "string \<times> string \<times> nat"

datatype error = KeyError

text \<open>What is put between the brackets of \<^verbatim>\<open>df[...]\<close>: a plain Python boolean or a boolean
  series with one entry per row.\<close>

datatype indexer = Scalar bool | Mask "bool list"

section \<open>Strings\<close>

definition digit_char :: "nat \<Rightarrow> char" where
  "digit_char n = ''0123456789'' ! n"

function str_of_nat :: "nat \<Rightarrow> string" where
  "str_of_nat n = (if n < 10 then [digit_char n] else str_of_nat (n div 10) @ [digit_char (n mod 10)])"
  by pat_completeness auto
termination
  by (relation "measure id") auto

declare str_of_nat.simps [simp del]

definition str_of_int :: "int \<Rightarrow> string" where
  "str_of_int i = (if i < 0 then CHR ''-'' # str_of_nat (nat (- i)) else str_of_nat (nat i))"

text \<open>\<^verbatim>\<open>astype(str)\<close> applies \<^verbatim>\<open>str\<close> to every cell; the missing value becomes the text \<^verbatim>\<open>nan\<close>.\<close>

fun astype_str :: "cell \<Rightarrow> string" where
  "astype_str (Str s) = s"
| "astype_str (Num i) = str_of_int i"
| "astype_str PyNone = ''None''"
| "astype_str NaN = ''nan''"
| "astype_str (Time t) = t"
| "astype_str NaT = ''NaT''"

definition code_of :: "char \<Rightarrow> nat" where
  "code_of c = of_char c"

definition is_upper_ascii :: "char \<Rightarrow> bool" where
  "is_upper_ascii c = (65 \<le> code_of c \<and> code_of c \<le> 90)"

definition is_lower_ascii :: "char \<Rightarrow> bool" where
  "is_lower_ascii c = (97 \<le> code_of c \<and> code_of c \<le> 122)"

definition is_digit :: "char \<Rightarrow> bool" where
  "is_digit c = (48 \<le> code_of c \<and> code_of c \<le> 57)"

definition is_alpha_ascii :: "char \<Rightarrow> bool" where
  "is_alpha_ascii c = (is_upper_ascii c \<or> is_lower_ascii c)"

text \<open>The character class \<^verbatim>\<open>[a-zA-Z0-9\-]\<close>.\<close>

definition is_label_char :: "char \<Rightarrow> bool" where
  "is_label_char c = (is_alpha_ascii c \<or> is_digit c \<or> c = CHR ''-'')"

text \<open>\<^verbatim>\<open>str.lower\<close> on one code point below 256: the ASCII capitals and the Latin-1 capitals
  (all of 192..222 but the multiplication sign 215) move up by 32.\<close>

definition lower_char :: "char \<Rightarrow> char" where
  "lower_char c =
     (if is_upper_ascii c \<or> (192 \<le> code_of c \<and> code_of c \<le> 222 \<and> code_of c \<noteq> 215)
      then char_of (code_of c + 32) else c)"

definition lower :: "string \<Rightarrow> string" where
  "lower s = map lower_char s"

text \<open>\<^verbatim>\<open>str.isspace\<close> on one code point below 256.\<close>

definition is_space :: "char \<Rightarrow> bool" where
  "is_space c = ((9 \<le> code_of c \<and> code_of c \<le> 13) \<or> (28 \<le> code_of c \<and> code_of c \<le> 32)
     \<or> code_of c = 133 \<or> code_of c = 160)"

text \<open>\<^verbatim>\<open>s.strip(chars)\<close> drops the leading and the trailing characters of the given class.\<close>

definition strip_chars :: "(char \<Rightarrow> bool) \<Rightarrow> string \<Rightarrow> string" where
  "strip_chars p s = rev (dropWhile p (rev (dropWhile p s)))"

text \<open>\<^verbatim>\<open>pat in s\<close> for a literal pattern: some suffix of \<open>s\<close> starts with the pattern.\<close>

fun str_contains :: "string \<Rightarrow> string \<Rightarrow> bool" where
  "str_contains pat [] = (pat = [])"
| "str_contains pat (c # cs) = (prefix pat (c # cs) \<or> str_contains pat cs)"

text \<open>The same search with \<^verbatim>\<open>case=False\<close>: both sides are compared in lower case.\<close>

definition str_contains_nocase :: "string \<Rightarrow> string \<Rightarrow> bool" where
  "str_contains_nocase pat s = str_contains (lower pat) (lower s)"

section \<open>Frames\<close>

text \<open>\<^verbatim>\<open>df.empty\<close>: one of the two axes has length zero.\<close>

definition empty_df :: "dataframe \<Rightarrow> bool" where
  "empty_df df = (columns df = [] \<or> rows df = [])"

text \<open>\<^verbatim>\<open>df[c]\<close> for a label \<open>c\<close> of the frame: the cells of that column, row by row.\<close>

definition col :: "dataframe \<Rightarrow> string \<Rightarrow> cell list" where
  "col df c = map (\<lambda>r. r c) (rows df)"

text \<open>\<^verbatim>\<open>df[c] = vs\<close>: the assignment writes the column in place (a new label is appended).
  The model returns the frame after the assignment.\<close>

definition set_col :: "dataframe \<Rightarrow> string \<Rightarrow> cell list \<Rightarrow> dataframe" where
  "set_col df c vs =
     \<lparr>columns = (if c \<in> set (columns df) then columns df else columns df @ [c]),
      rows = map (\<lambda>(r, v). r(c := v)) (zip (rows df) vs)\<rparr>"

text \<open>
  \<^verbatim>\<open>df[key]\<close> for a boolean key. A boolean series selects the rows whose entry is true and
  keeps their order. A plain boolean is not a row selector: pandas looks it up as a column
  label, and no column of a frame read from JSON is labelled \<^verbatim>\<open>True\<close> or \<^verbatim>\<open>False\<close>,
  so the lookup raises \<^verbatim>\<open>KeyError\<close>.
\<close>

definition select_rows :: "dataframe \<Rightarrow> bool list \<Rightarrow> dataframe" where
  "select_rows df m = df\<lparr>rows := map fst (filter snd (zip (rows df) m))\<rparr>"

fun getitem :: "dataframe \<Rightarrow> indexer \<Rightarrow> error + dataframe" where
  "getitem df (Scalar b) = Inl KeyError"
| "getitem df (Mask m) = Inr (select_rows df m)"

text \<open>A row with no field, and the frame \<^verbatim>\<open>pd.DataFrame([])\<close> that an empty list of records
  gives: no column and no row.\<close>

definition blank_row :: row where
  "blank_row = (\<lambda>c. NaN)"

definition no_records :: dataframe where
  "no_records = \<lparr>columns = [], rows = []\<rparr>"

section \<open>Source classifier\<close>

definition possible_dns_cols :: "string list" where
  "possible_dns_cols = [''query'', ''query_name'', ''domain'', ''dest_dns'', ''dns_query'']"

text \<open>\<^verbatim>\<open>split_logs\<close>. The Windows selector is computed and applied (line 54) before the DNS
  selector is computed; both selectors start as the plain boolean \<^verbatim>\<open>False\<close>.\<close>

definition win_indexer :: "dataframe \<Rightarrow> indexer" where
  "win_indexer df =
     (if ''source'' \<in> set (columns df)
      then Mask (map (str_contains ''WinEventLog'') (map astype_str (col df ''source'')))
      else if ''sourcetype'' \<in> set (columns df)
      then Mask (map (str_contains ''WinEventLog'') (map astype_str (col df ''sourcetype'')))
      else Scalar False)"

definition dns_indexer :: "dataframe \<Rightarrow> indexer" where
  "dns_indexer df =
     (if ''sourcetype'' \<in> set (columns df)
      then Mask (map (str_contains_nocase ''dns'') (map astype_str (col df ''sourcetype'')))
      else if ''source'' \<in> set (columns df)
      then Mask (map (str_contains_nocase ''dns'') (map astype_str (col df ''source'')))
      else Scalar (list_ex (\<lambda>c. c \<in> set possible_dns_cols) (columns df)))"

definition split_logs :: "dataframe \<Rightarrow> error + (dataframe \<times> dataframe)" where
  "split_logs df =
     (case getitem df (win_indexer df) of
        Inl e \<Rightarrow> Inl e
      | Inr win_df \<Rightarrow>
          (case getitem df (dns_indexer df) of
             Inl e \<Rightarrow> Inl e
           | Inr dns_df \<Rightarrow> Inr (win_df, dns_df)))"


section \<open>Counting values\<close>

text \<open>
  \<^verbatim>\<open>Series.value_counts()\<close> tallies the values in a hash table, in the order in which they
  are first seen, and sorts the tally by count, largest first. The sort is modelled as
  stable, so values with equal counts stay in first-seen order.
\<close>

fun bump :: "'a \<Rightarrow> ('a \<times> nat) list \<Rightarrow> ('a \<times> nat) list" where
  "bump x [] = [(x, 1)]"
| "bump x ((k, n) # t) = (if k = x then (k, Suc n) # t else (k, n) # bump x t)"

definition tally :: "'a list \<Rightarrow> ('a \<times> nat) list" where
  "tally xs = foldl (\<lambda>acc x. bump x acc) [] xs"

definition sort_desc :: "('a \<times> nat) list \<Rightarrow> ('a \<times> nat) list" where
  "sort_desc ps = sort_key (\<lambda>p. - int (snd p)) ps"

definition value_counts :: "'a list \<Rightarrow> ('a \<times> nat) list" where
  "value_counts xs = sort_desc (tally xs)"

section \<open>Windows rule scorer\<close>

definition event_cols :: "string list" where
  "event_cols = [''EventCode'', ''signature_id'', ''EventID'', ''event_id'']"

text \<open>The loop \<^verbatim>\<open>for c in candidates: if c in df.columns: ...; break\<close>.\<close>

fun first_present :: "string list \<Rightarrow> string list \<Rightarrow> string option" where
  "first_present [] cols = None"
| "first_present (c # cs) cols = (if c \<in> set cols then Some c else first_present cs cols)"

definition suspicious_ids :: "(string \<times> string) list" where
  "suspicious_ids =
    [(''4625'', ''Failed logon (4625)''),
     (''4624'', ''Successful logon (4624) - check anomalies''),
     (''4648'', ''Logon with explicit creds (4648)''),
     (''4672'', ''Special privileges assigned (4672)''),
     (''4720'', ''User account created (4720)''),
     (''4722'', ''User enabled (4722)''),
     (''4723'', ''Password change attempt (4723)''),
     (''4724'', ''Password reset attempt (4724)''),
     (''4728'', ''Added to privileged group (4728)''),
     (''4732'', ''Added to local group (4732)''),
     (''4756'', ''Added to universal group (4756)''),
     (''4688'', ''Process created (4688)''),
     (''4697'', ''Service installed (4697)''),
     (''7045'', ''Service created (7045)''),
     (''4698'', ''Scheduled task created (4698)''),
     (''4699'', ''Scheduled task deleted (4699)''),
     (''1102'', ''Audit log cleared (1102)''),
     (''4719'', ''Audit policy changed (4719)''),
     (''4703'', ''User right adjusted (4703)'')]"

text \<open>\<^verbatim>\<open>suspicious_ids.get(k, k)\<close>.\<close>

definition label_of :: "string \<Rightarrow> string" where
  "label_of k = (case map_of suspicious_ids k of Some l \<Rightarrow> l | None \<Rightarrow> k)"

definition is_suspicious :: "string \<Rightarrow> bool" where
  "is_suspicious k = (k \<in> set (map fst suspicious_ids))"

text \<open>The text held by the cells of a column.\<close>

definition texts :: "dataframe \<Rightarrow> string \<Rightarrow> string list" where
  "texts df c = map astype_str (col df c)"

text \<open>
  The fallback ranking of lines 116 to 124 depends on the labels that
  \<^verbatim>\<open>value_counts().reset_index()\<close> gives its two columns, and these differ between releases
  of pandas; the repository names no release, so the release is an argument of the model.
  Before pandas 2.0 the counted values stand under \<^verbatim>\<open>index\<close> and the counts under the
  label of the counted column; from 2.0 on the values stand under the label of the counted
  column and the counts under \<^verbatim>\<open>count\<close>.
\<close>

datatype pandas_version = Before_2 | From_2

fun reset_index_labels :: "pandas_version \<Rightarrow> string \<Rightarrow> string list" where
  "reset_index_labels Before_2 c = [''index'', c]"
| "reset_index_labels From_2 c = [c, ''count'']"

text \<open>\<^verbatim>\<open>rename(columns={"index": "key", event_col: "count"})\<close> on one label.\<close>

definition rename_label :: "string \<Rightarrow> string \<Rightarrow> string" where
  "rename_label event_col l =
     (if l = event_col then ''count'' else if l = ''index'' then ''key'' else l)"

text \<open>
  \<^verbatim>\<open>.reset_index().rename(...)\<close>, the new column \<^verbatim>\<open>type\<close>, and the selection
  \<^verbatim>\<open>top[["type", "key", "count"]]\<close> of line 124, which raises \<^verbatim>\<open>KeyError\<close> when one of the
  three labels is missing. When the three labels are there, \<^verbatim>\<open>key\<close> is the column of the
  values and \<^verbatim>\<open>count\<close> the column of the counts.
\<close>

definition top_by_frequency ::
  "pandas_version \<Rightarrow> string \<Rightarrow> (string \<times> nat) list \<Rightarrow> error + ranked list" where
  "top_by_frequency v event_col counts =
     (let labels = map (rename_label event_col) (reset_index_labels v event_col) @ [''type'']
      in if list_all (\<lambda>l. l \<in> set labels) [''type'', ''key'', ''count'']
         then Inr (map (\<lambda>(k, n). (''WinEventLog (top by frequency)'', k, n)) counts)
         else Inl KeyError)"

text \<open>
  \<^verbatim>\<open>suspicious_wineventlog\<close>. Line 84 assigns the identifier column of the argument itself,
  so the model returns the ranking, or the error raised, together with the argument frame as
  the call leaves it.
\<close>

definition suspicious_wineventlog ::
  "pandas_version \<Rightarrow> dataframe \<Rightarrow> (error + ranked list) \<times> dataframe" where
  "suspicious_wineventlog v win_df =
     (case first_present event_cols (columns win_df) of
        None \<Rightarrow> (Inr [], win_df)
      | Some event_col \<Rightarrow>
          if empty_df win_df then (Inr [], win_df)
          else
            let win_df' = set_col win_df event_col (map Str (texts win_df event_col));
                flagged = select_rows win_df' (map is_suspicious (texts win_df' event_col))
            in if empty_df flagged
               then (top_by_frequency v event_col
                       (take 10 (value_counts (texts win_df' event_col))), win_df')
               else (Inr (map (\<lambda>(k, n). (''WinEventLog'', label_of k, n))
                            (value_counts (texts flagged event_col))), win_df'))"

section \<open>DNS heuristic scorer\<close>

text \<open>\<^verbatim>\<open>str.split(sep)\<close> for a one-character separator; the result is never empty, so the
  first branch of the inner case is never taken.\<close>

fun split_on :: "char \<Rightarrow> string \<Rightarrow> string list" where
  "split_on sep [] = [[]]"
| "split_on sep (c # cs) =
     (if c = sep then [] # split_on sep cs
      else (case split_on sep cs of [] \<Rightarrow> [[c]] | p # ps \<Rightarrow> (c # p) # ps))"

text \<open>\<^verbatim>\<open>sep.join(parts)\<close>.\<close>

fun join :: "string \<Rightarrow> string list \<Rightarrow> string" where
  "join sep [] = []"
| "join sep [p] = p"
| "join sep (p # q # ps) = p @ sep @ join sep (q # ps)"

definition is_dot :: "char \<Rightarrow> bool" where
  "is_dot c = (c = CHR ''.'')"

text \<open>\<^verbatim>\<open>extract_domain\<close>; the argument is any Python value, here any cell.\<close>

fun extract_domain :: "cell \<Rightarrow> string" where
  "extract_domain (Str q) =
     (if q = [] then []
      else let q' = lower (strip_chars is_dot q); parts = split_on (CHR ''.'') q'
           in if length parts \<le> 2 then q' else join ''.'' (drop (length parts - 2) parts))"
| "extract_domain v = []"

text \<open>
  The pattern \<^verbatim>\<open>([a-zA-Z0-9\-]{1,63}(?:\.[a-zA-Z0-9\-]{1,63})+\.[a-zA-Z]{2,})\<close> under
  \<^verbatim>\<open>re.search\<close>: the leftmost start wins, and at one start the backtracking matcher tries
  every repetition longest first. Each function returns the number of characters matched from
  its position to the end of the match.
\<close>

definition label_run :: "string \<Rightarrow> nat" where
  "label_run s = min 63 (length (takeWhile is_label_char s))"

text \<open>The end of the pattern, \<^verbatim>\<open>\.[a-zA-Z]{2,}\<close>: nothing follows it, so its longest run
  of letters is taken.\<close>

definition match_tail :: "string \<Rightarrow> nat option" where
  "match_tail s =
     (case s of
        [] \<Rightarrow> None
      | c # r \<Rightarrow>
          if c = CHR ''.'' \<and> 2 \<le> length (takeWhile is_alpha_ascii r)
          then Some (Suc (length (takeWhile is_alpha_ascii r))) else None)"

text \<open>One round of the group \<^verbatim>\<open>(?:\.[a-zA-Z0-9\-]{1,63})+\<close>, just after its dot: the label
  takes \<open>k\<close> characters of \<open>r\<close>, then \<open>k - 1\<close>, down to one. After a label the matcher first tries
  one more round, then the end of the pattern.\<close>

function match_groups :: "string \<Rightarrow> nat \<Rightarrow> nat option" where
  "match_groups r 0 = None"
| "match_groups r (Suc k) =
     (case (case drop (Suc k) r of
              [] \<Rightarrow> None
            | c # r' \<Rightarrow> if c = CHR ''.'' then match_groups r' (label_run r') else None) of
        Some n \<Rightarrow> Some (Suc k + 1 + n)
      | None \<Rightarrow>
          (case match_tail (drop (Suc k) r) of
             Some n \<Rightarrow> Some (Suc k + n)
           | None \<Rightarrow> match_groups r k))"
  by pat_completeness auto
termination
proof (relation "measures [\<lambda>(r, k). length r, \<lambda>(r, k). k]", goal_cases)
  case 1
  show ?case by simp
next
  case (2 r k c r')
  have "length (drop (Suc k) r) \<le> length r" by simp
  with 2 show ?case by simp
next
  case 3
  show ?case by simp
qed

text \<open>The first label \<^verbatim>\<open>[a-zA-Z0-9\-]{1,63}\<close>, which must be followed by a round of the group.\<close>

fun match_first :: "string \<Rightarrow> nat \<Rightarrow> nat option" where
  "match_first s 0 = None"
| "match_first s (Suc k) =
     (case (case drop (Suc k) s of
              [] \<Rightarrow> None
            | c # r' \<Rightarrow> if c = CHR ''.'' then match_groups r' (label_run r') else None) of
        Some n \<Rightarrow> Some (Suc k + 1 + n)
      | None \<Rightarrow> match_first s k)"

fun search_domain :: "string \<Rightarrow> string option" where
  "search_domain [] = None"
| "search_domain (c # cs) =
     (case match_first (c # cs) (label_run (c # cs)) of
        Some n \<Rightarrow> Some (take n (c # cs))
      | None \<Rightarrow> search_domain cs)"

text \<open>\<^verbatim>\<open>domain_like.fillna(s).str.strip().str.lower()\<close> on one text.\<close>

definition qname_of :: "string \<Rightarrow> string" where
  "qname_of s = lower (strip_chars is_space (case search_domain s of Some m \<Rightarrow> m | None \<Rightarrow> s))"

text \<open>The columns that \<^verbatim>\<open>dns_work\<close> adds to a record.\<close>

record dns_row =
  qname :: string
  domain :: string
  qname_len :: nat
  dots :: nat
  digits :: nat

definition features :: "string \<Rightarrow> dns_row" where
  "features q =
     \<lparr>qname = q, domain = extract_domain (Str q), qname_len = length q,
      dots = length (filter is_dot q), digits = length (filter is_digit q)\<rparr>"

definition weird :: "dns_row \<Rightarrow> bool" where
  "weird w = (qname_len w \<ge> 40 \<or> dots w \<ge> 5 \<or> digits w \<ge> 10)"

definition query_cols :: "string list" where
  "query_cols = [''query'', ''query_name'', ''dns_query'', ''dest_dns'', ''Domain'', ''domain'',
     ''QueryName'']"

definition raw_cols :: "string list" where
  "raw_cols = [''Message'', ''_raw'', ''body'']"

definition query_col_of :: "dataframe \<Rightarrow> string option" where
  "query_col_of df =
     (case first_present query_cols (columns df) of
        Some c \<Rightarrow> Some c
      | None \<Rightarrow> first_present raw_cols (columns df))"

definition dns_work :: "dataframe \<Rightarrow> string \<Rightarrow> dns_row list" where
  "dns_work df query_col = map (\<lambda>s. features (qname_of s)) (texts df query_col)"

definition suspicious_q :: "dns_row list \<Rightarrow> dns_row list" where
  "suspicious_q work = filter weird work"

definition rare_domains :: "dns_row list \<Rightarrow> string list" where
  "rare_domains work = map fst (filter (\<lambda>(d, n). n \<le> 2) (value_counts (map domain work)))"

definition suspicious_dns :: "dataframe \<Rightarrow> ranked list" where
  "suspicious_dns dns_df =
     (if empty_df dns_df then []
      else case query_col_of dns_df of
        None \<Rightarrow> []
      | Some query_col \<Rightarrow>
          let work = dns_work dns_df query_col;
              rare_hits = filter (\<lambda>w. domain w \<in> set (rare_domains work)) work;
              rare_top = map (\<lambda>(k, n). (''DNS (rare domains)'', k, n))
                           (take 10 (value_counts (map domain rare_hits)));
              weird_top = map (\<lambda>(k, n). (''DNS (weird subdomains)'', k, n))
                            (take 10 (value_counts (map qname (suspicious_q work))))
          in rare_top @ weird_top)"

section \<open>Aggregator\<close>

text \<open>
  \<^verbatim>\<open>combined.groupby(["type", "key"], as_index=False)["count"].sum()\<close> gives one row for
  every pair that occurs, the pairs in ascending order, with the sum of the counts of the
  pair; \<^verbatim>\<open>sort_values("count", ascending=False)\<close> then orders the rows by the sum, largest
  first (modelled as stable).
\<close>

definition group_key :: "ranked \<Rightarrow> string \<times> string" where
  "group_key r = (fst r, fst (snd r))"

definition count_of :: "ranked \<Rightarrow> nat" where
  "count_of r = snd (snd r)"

definition group_sum :: "ranked list \<Rightarrow> ranked list" where
  "group_sum rs =
     map (\<lambda>g. (fst g, snd g, sum_list (map count_of (filter (\<lambda>r. group_key r = g) rs))))
       (sort (remdups (map group_key rs)))"

definition combined_top :: "ranked list \<Rightarrow> ranked list" where
  "combined_top rs = sort_key (\<lambda>r. - int (count_of r)) (group_sum rs)"

section \<open>Field normalizer\<close>

text \<open>
  \<^verbatim>\<open>pd.to_datetime(column, errors="coerce")\<close>. A column that already holds timestamps
  comes back as it is. Any other column is parsed by the library: \<open>parse\<close> stands for its
  parser, which sees the whole column (the format is guessed from it) and the cell, and
  gives no timestamp for what it cannot read; such a cell becomes \<open>NaT\<close>.
\<close>

fun is_temporal :: "cell \<Rightarrow> bool" where
  "is_temporal (Time t) = True"
| "is_temporal NaT = True"
| "is_temporal c = False"

definition to_datetime :: "(cell list \<Rightarrow> cell \<Rightarrow> string option) \<Rightarrow> cell list \<Rightarrow> cell list" where
  "to_datetime parse cs =
     (if list_all is_temporal cs then cs
      else map (\<lambda>c. case parse cs c of Some t \<Rightarrow> Time t | None \<Rightarrow> NaT) cs)"

definition normalize_time :: "(cell list \<Rightarrow> cell \<Rightarrow> string option) \<Rightarrow> dataframe \<Rightarrow> dataframe" where
  "normalize_time parse df =
     (if ''_time'' \<in> set (columns df)
      then set_col df ''_time'' (to_datetime parse (col df ''_time''))
      else df)"

section \<open>Example inputs\<close>

definition event_row :: "cell \<Rightarrow> row" where
  "event_row v = blank_row(''EventCode'' := v)"

text \<open>Eight events: \<^verbatim>\<open>4625\<close> five times and \<^verbatim>\<open>4688\<close> three times, as text or as number.\<close>

definition logon_events :: dataframe where
  "logon_events =
     \<lparr>columns = [''EventCode''],
      rows = map event_row [Str ''4688'', Str ''4625'', Num 4625, Str ''4625'', Str ''4688'',
               Str ''4625'', Num 4688, Str ''4625'']\<rparr>"

text \<open>Nine events outside the catalog: \<^verbatim>\<open>9999\<close> seven times and \<^verbatim>\<open>8888\<close> twice.\<close>

definition unknown_events :: dataframe where
  "unknown_events =
     \<lparr>columns = [''EventCode''],
      rows = map event_row [Str ''8888'', Str ''9999'', Str ''9999'', Str ''9999'', Str ''8888'',
               Str ''9999'', Str ''9999'', Str ''9999'', Str ''9999'']\<rparr>"


text \<open>Two DNS queries, one of them for a name seven labels deep.\<close>

definition query_row :: "cell \<Rightarrow> row" where
  "query_row v = blank_row(''query'' := v)"

definition deep_queries :: dataframe where
  "deep_queries =
     \<lparr>columns = [''query''],
      rows = map query_row [Str ''a.b.c.d.e.f.example.com'', Str ''Example.com'']\<rparr>"



text \<open>The rows of the aggregator example.\<close>

definition scorer_rows :: "ranked list" where
  "scorer_rows = [(''WinEventLog'', ''X'', 3), (''DNS (rare domains)'', ''Y'', 2),
     (''WinEventLog'', ''X'', 1)]"

section \<open>Properties of the classifier\<close>

lemma split_logs_no_signal:
  assumes "''source'' \<notin> set (columns df)" and "''sourcetype'' \<notin> set (columns df)"
  shows "split_logs df = Inl KeyError"
  using assms by (simp add: split_logs_def win_indexer_def)

lemma subseq_select_rows: "subseq (rows (select_rows df m)) (rows df)"
proof -
  have "subseq (map fst (filter snd (zip xs m))) xs" for xs :: "row list"
  proof (induction xs arbitrary: m)
    case Nil
    show ?case by simp
  next
    case (Cons x xs)
    show ?case
    proof (cases m)
      case Nil
      then show ?thesis by simp
    next
      case (Cons b bs)
      with Cons.IH [of bs] show ?thesis by auto
    qed
  qed
  then show ?thesis by (simp add: select_rows_def)
qed

lemma split_logs_subseq:
  assumes "split_logs df = Inr (w, d)"
  shows "subseq (rows w) (rows df) \<and> subseq (rows d) (rows df)"
proof -
  from assms obtain m1 m2 where "w = select_rows df m1" "d = select_rows df m2"
    unfolding split_logs_def
    by (cases "win_indexer df"; cases "dns_indexer df") auto
  then show ?thesis by (simp add: subseq_select_rows)
qed

lemma split_logs_with_signal:
  assumes "''source'' \<in> set (columns df) \<or> ''sourcetype'' \<in> set (columns df)"
  shows "\<exists>w d. split_logs df = Inr (w, d)"
  using assms by (auto simp: split_logs_def win_indexer_def dns_indexer_def)

section \<open>Properties of counting\<close>

lemma bump_map_of:
  "map_of (bump x acc) k =
     (if k = x then Some (Suc (case map_of acc x of Some n \<Rightarrow> n | None \<Rightarrow> 0)) else map_of acc k)"
  by (induction x acc rule: bump.induct) auto

lemma bump_keys:
  "map fst (bump x acc) = (if x \<in> set (map fst acc) then map fst acc else map fst acc @ [x])"
  by (induction x acc rule: bump.induct) auto

lemma fold_bump_map_of:
  "map_of (foldl (\<lambda>a x. bump x a) acc xs) k =
     (if k \<in> set (map fst acc) \<or> k \<in> set xs
      then Some ((case map_of acc k of Some m \<Rightarrow> m | None \<Rightarrow> 0) + count_list xs k)
      else None)"
proof (induction xs arbitrary: acc)
  case Nil
  show ?case by (auto simp: map_of_eq_None_iff split: option.splits dest: weak_map_of_SomeI)
next
  case (Cons x xs)
  show ?case
    unfolding foldl_Cons Cons.IH
    by (auto simp: bump_map_of bump_keys split: option.splits)
qed

lemma fold_bump_distinct:
  "distinct (map fst acc) \<Longrightarrow> distinct (map fst (foldl (\<lambda>a x. bump x a) acc xs))"
  by (induction xs arbitrary: acc) (auto simp: bump_keys)

lemma tally_distinct: "distinct (map fst (tally xs))"
  by (simp add: tally_def fold_bump_distinct)

lemma tally_map_of:
  "map_of (tally xs) k = (if k \<in> set xs then Some (count_list xs k) else None)"
  by (simp add: tally_def fold_bump_map_of)

lemma tally_set: "set (tally xs) = (\<lambda>k. (k, count_list xs k)) ` set xs"
proof -
  have "(k, n) \<in> set (tally xs) \<longleftrightarrow> (k \<in> set xs \<and> n = count_list xs k)" for k n
    using map_of_eq_Some_iff [OF tally_distinct, of xs k n]
    by (auto simp: tally_map_of split: if_splits)
  then show ?thesis by auto
qed

lemma value_counts_set: "set (value_counts xs) = (\<lambda>k. (k, count_list xs k)) ` set xs"
  by (simp add: value_counts_def sort_desc_def tally_set)

lemma value_counts_distinct: "distinct (map fst (value_counts xs))"
proof -
  have "distinct (tally xs) \<and> inj_on fst (set (tally xs))"
    using tally_distinct [of xs] by (simp add: distinct_map)
  then show ?thesis
    by (simp add: value_counts_def sort_desc_def distinct_map)
qed

lemma value_counts_sorted: "sorted_wrt (\<lambda>p q. snd q \<le> snd p) (value_counts xs)"
proof -
  have "sorted (map (\<lambda>p. - int (snd p)) (value_counts xs))"
    by (simp add: value_counts_def sort_desc_def)
  then show ?thesis by (simp add: sorted_map)
qed

lemma value_counts_Nil: "value_counts [] = []"
  by (simp add: value_counts_def sort_desc_def tally_def)

lemma two_element_list:
  assumes "distinct l" and "set l = {p, q}" and "p \<noteq> q"
  shows "l = [p, q] \<or> l = [q, p]"
proof -
  have "length l = 2"
    using assms distinct_card [of l] by simp
  then obtain a b where l: "l = [a, b]"
    by (auto simp: length_Suc_conv numeral_2_eq_2)
  with assms show ?thesis by (auto simp: doubleton_eq_iff)
qed

lemma value_counts_two:
  assumes "set xs = {a, b}" and "count_list xs b < count_list xs a"
  shows "value_counts xs = [(a, count_list xs a), (b, count_list xs b)]"
proof -
  let ?p = "(a, count_list xs a)" and ?q = "(b, count_list xs b)"
  have ne: "?p \<noteq> ?q" using assms by auto
  have "distinct (value_counts xs)"
    using value_counts_distinct [of xs] by (simp add: distinct_map)
  moreover have "set (value_counts xs) = {?p, ?q}"
    using assms(1) by (simp add: value_counts_set)
  ultimately have "value_counts xs = [?p, ?q] \<or> value_counts xs = [?q, ?p]"
    using ne by (rule two_element_list)
  moreover have "value_counts xs \<noteq> [?q, ?p]"
  proof
    assume "value_counts xs = [?q, ?p]"
    with value_counts_sorted [of xs] assms(2) show False by simp
  qed
  ultimately show ?thesis by simp
qed

lemma value_counts_length: "length (value_counts xs) = card (set xs)"
proof -
  have "length (value_counts xs) = card (set (map fst (value_counts xs)))"
    using value_counts_distinct [of xs] distinct_card [of "map fst (value_counts xs)"] by simp
  also have "set (map fst (value_counts xs)) = set xs"
    by (simp add: value_counts_set image_image)
  finally show ?thesis .
qed

lemma top_counts_member:
  assumes "(k, n) \<in> set (take m (value_counts xs))"
  shows "k \<in> set xs \<and> n = count_list xs k"
proof -
  from assms have "(k, n) \<in> set (value_counts xs)" by (rule in_set_takeD)
  then show ?thesis by (auto simp: value_counts_set)
qed

lemma top_counts_dominate:
  assumes "v \<in> set xs" and "v \<notin> fst ` set (take m (value_counts xs))"
    and "(k, n) \<in> set (take m (value_counts xs))"
  shows "count_list xs v \<le> n"
proof -
  let ?vc = "value_counts xs"
  have "(v, count_list xs v) \<in> set ?vc"
    using assms(1) by (simp add: value_counts_set)
  then have "(v, count_list xs v) \<in> set (take m ?vc) \<union> set (drop m ?vc)"
    by (simp flip: set_append)
  with assms(2) have d: "(v, count_list xs v) \<in> set (drop m ?vc)"
    by force
  have "sorted_wrt (\<lambda>p q. snd q \<le> snd p) (take m ?vc @ drop m ?vc)"
    using value_counts_sorted [of xs] by simp
  then have "\<forall>p \<in> set (take m ?vc). \<forall>q \<in> set (drop m ?vc). snd q \<le> snd p"
    unfolding sorted_wrt_append by blast
  with d assms(3) show ?thesis by force
qed

section \<open>Properties of the Windows rule scorer\<close>

lemma first_present_Some:
  "first_present cs cols = Some c \<Longrightarrow> c \<in> set cols \<and> c \<in> set cs"
  by (induction cs) (auto split: if_splits)

lemma col_set_col_same:
  assumes "length vs = length (rows df)"
  shows "col (set_col df c vs) c = vs"
proof -
  have "map (\<lambda>r. r c) (map (\<lambda>(r, v). r(c := v)) (zip (rows df) vs)) = map snd (zip (rows df) vs)"
    by (simp add: case_prod_unfold)
  with assms show ?thesis by (simp add: col_def set_col_def)
qed


lemma length_texts: "length (texts df c) = length (rows df)"
  by (simp add: texts_def col_def)

lemma texts_set_col_Str: "texts (set_col df c (map Str (texts df c))) c = texts df c"
proof -
  have "col (set_col df c (map Str (texts df c))) c = map Str (texts df c)"
    by (rule col_set_col_same) (simp add: length_texts)
  then show ?thesis by (simp add: texts_def comp_def)
qed

lemma select_by_value:
  "map f (map fst (filter snd (zip xs (map (\<lambda>x. P (f x)) xs)))) = filter P (map f xs)"
  by (induction xs) auto

lemma texts_select_rows:
  "texts (select_rows df (map P (texts df c))) c = filter P (texts df c)"
proof -
  have "map (\<lambda>r. astype_str (r c))
          (map fst (filter snd (zip (rows df) (map (\<lambda>r. P (astype_str (r c))) (rows df)))))
        = filter P (map (\<lambda>r. astype_str (r c)) (rows df))"
    by (rule select_by_value)
  then show ?thesis by (simp add: texts_def col_def select_rows_def comp_def)
qed

lemma texts_Nil_iff: "texts df c = [] \<longleftrightarrow> rows df = []"
  by (simp add: texts_def col_def)

lemma wineventlog_ranking:
  assumes "first_present event_cols (columns win_df) = Some ec"
  shows "fst (suspicious_wineventlog v win_df) =
           (if texts win_df ec = [] then Inr []
            else if filter is_suspicious (texts win_df ec) = []
            then top_by_frequency v ec (take 10 (value_counts (texts win_df ec)))
            else Inr (map (\<lambda>(k, n). (''WinEventLog'', label_of k, n))
                   (value_counts (filter is_suspicious (texts win_df ec)))))"
proof (cases "rows win_df = []")
  case True
  then have "texts win_df ec = []" by (simp add: texts_Nil_iff)
  with True assms show ?thesis
    by (simp add: suspicious_wineventlog_def empty_df_def)
next
  case False
  then have tn: "texts win_df ec \<noteq> []" by (simp add: texts_Nil_iff)
  from assms have cols: "columns win_df \<noteq> []"
    using first_present_Some by fastforce
  let ?df' = "set_col win_df ec (map Str (texts win_df ec))"
  let ?flagged = "select_rows ?df' (map is_suspicious (texts ?df' ec))"
  have t: "texts ?df' ec = texts win_df ec" by (rule texts_set_col_Str)
  have "texts ?flagged ec = filter is_suspicious (texts ?df' ec)"
    by (rule texts_select_rows)
  then have f: "texts ?flagged ec = filter is_suspicious (texts win_df ec)"
    by (simp only: t)
  have "columns ?flagged \<noteq> []"
    using cols by (simp add: select_rows_def set_col_def)
  then have e: "empty_df ?flagged \<longleftrightarrow> filter is_suspicious (texts win_df ec) = []"
    using f texts_Nil_iff [of ?flagged ec] by (simp add: empty_df_def)
  from False cols have ne: "\<not> empty_df win_df" by (simp add: empty_df_def)
  show ?thesis
    using assms ne e f t tn by (simp add: suspicious_wineventlog_def Let_def)
qed

lemma top_by_frequency_before_2:
  assumes "ec \<in> set event_cols"
  shows "top_by_frequency Before_2 ec counts =
           Inr (map (\<lambda>(k, n). (''WinEventLog (top by frequency)'', k, n)) counts)"
  using assms by (auto simp: top_by_frequency_def rename_label_def event_cols_def)

lemma top_by_frequency_from_2: "top_by_frequency From_2 ec counts = Inl KeyError"
  by (auto simp: top_by_frequency_def rename_label_def)

lemma wineventlog_fallback_before_2:
  assumes "first_present event_cols (columns win_df) = Some ec"
    and "filter is_suspicious (texts win_df ec) = []"
  shows "fst (suspicious_wineventlog Before_2 win_df) =
           Inr (map (\<lambda>(k, n). (''WinEventLog (top by frequency)'', k, n))
                  (take 10 (value_counts (texts win_df ec))))"
proof -
  from assms(1) have "ec \<in> set event_cols"
    using first_present_Some by fastforce
  then show ?thesis
    using assms(2)
    by (simp add: wineventlog_ranking [OF assms(1)] top_by_frequency_before_2 value_counts_Nil)
qed

lemma wineventlog_fallback_from_2:
  assumes "first_present event_cols (columns win_df) = Some ec"
    and "filter is_suspicious (texts win_df ec) = []"
    and "rows win_df \<noteq> []"
  shows "fst (suspicious_wineventlog From_2 win_df) = Inl KeyError"
  using assms(2,3)
  by (simp add: wineventlog_ranking [OF assms(1)] top_by_frequency_from_2 texts_Nil_iff)




section \<open>Properties of the DNS heuristic scorer\<close>

lemma dns_work_features:
  assumes "w \<in> set (dns_work df c)"
  shows "qname_len w = length (qname w) \<and> dots w = length (filter is_dot (qname w))
    \<and> digits w = length (filter is_digit (qname w)) \<and> domain w = extract_domain (Str (qname w))"
  using assms by (auto simp: dns_work_def features_def)

lemma weird_iff:
  assumes "w \<in> set (dns_work df c)"
  shows "weird w \<longleftrightarrow> (40 \<le> length (qname w) \<or> 5 \<le> length (filter is_dot (qname w))
    \<or> 10 \<le> length (filter is_digit (qname w)))"
  using dns_work_features [OF assms] by (simp add: weird_def)

lemma weird_rows_keys:
  assumes "r \<in> set (suspicious_dns dns_df)" and "fst r = ''DNS (weird subdomains)''"
  shows "40 \<le> length (fst (snd r)) \<or> 5 \<le> length (filter is_dot (fst (snd r)))
    \<or> 10 \<le> length (filter is_digit (fst (snd r)))"
proof -
  have ne: "\<not> empty_df dns_df"
    using assms(1) by (auto simp: suspicious_dns_def split: if_splits)
  obtain qc where qc: "query_col_of dns_df = Some qc"
    using assms(1) ne by (cases "query_col_of dns_df") (auto simp: suspicious_dns_def)
  let ?work = "dns_work dns_df qc"
  let ?rare = "take 10 (value_counts (map domain (filter (\<lambda>w. domain w \<in> set (rare_domains ?work)) ?work)))"
  let ?weird = "take 10 (value_counts (map qname (suspicious_q ?work)))"
  from assms(1) qc ne have "r \<in> set (map (\<lambda>(k, n). (''DNS (rare domains)'', k, n)) ?rare)
      \<or> r \<in> set (map (\<lambda>(k, n). (''DNS (weird subdomains)'', k, n)) ?weird)"
    by (simp add: suspicious_dns_def Let_def)
  with assms(2) have "r \<in> set (map (\<lambda>(k, n). (''DNS (weird subdomains)'', k, n)) ?weird)"
    by auto
  then obtain k n where r: "r = (''DNS (weird subdomains)'', k, n)" and kn: "(k, n) \<in> set ?weird"
    by auto
  from kn have "k \<in> set (map qname (suspicious_q ?work))"
    using top_counts_member by fastforce
  then obtain w where w: "w \<in> set ?work" "weird w" "qname w = k"
    by (auto simp: suspicious_q_def)
  with weird_iff [OF w(1)] r show ?thesis by simp
qed

section \<open>Properties of the aggregator\<close>

lemma group_sum_keys: "map group_key (group_sum rs) = sort (remdups (map group_key rs))"
  by (simp add: group_sum_def group_key_def comp_def)

lemma group_sum_count:
  assumes "r \<in> set (group_sum rs)"
  shows "count_of r = sum_list (map count_of (filter (\<lambda>x. group_key x = group_key r) rs))"
  using assms by (auto simp: group_sum_def group_key_def count_of_def)

lemma combined_top_set: "set (combined_top rs) = set (group_sum rs)"
  by (simp add: combined_top_def)

lemma combined_top_distinct: "distinct (map group_key (combined_top rs))"
proof -
  have "distinct (map group_key (group_sum rs))"
    by (simp add: group_sum_keys)
  then have "distinct (group_sum rs) \<and> inj_on group_key (set (group_sum rs))"
    by (simp add: distinct_map)
  then show ?thesis
    by (simp add: combined_top_def distinct_map)
qed

lemma combined_top_sorted:
  "sorted_wrt (\<lambda>r r'. count_of r' \<le> count_of r) (combined_top rs)"
proof -
  have "sorted (map (\<lambda>r. - int (count_of r)) (combined_top rs))"
    by (simp add: combined_top_def)
  then show ?thesis by (simp add: sorted_map)
qed

section \<open>Properties of the field normalizer\<close>






section \<open>Scorers on a subset without records\<close>

lemma scorers_on_no_rows:
  assumes "rows df = []"
  shows "suspicious_wineventlog v df = (Inr [], df) \<and> suspicious_dns df = []"
  using assms by (simp add: suspicious_wineventlog_def suspicious_dns_def empty_df_def
      split: option.splits)

section \<open>Claims on the classifier\<close>

text \<open>
  C2. The claim: for every record set the classifier never raises, and its two outputs are
  subsequences of the input in the input's order. On a frame with a single Windows record
  that carries neither a \<^verbatim>\<open>source\<close> nor a \<^verbatim>\<open>sourcetype\<close> field, \<^verbatim>\<open>is_win\<close> is still
  the plain \<^verbatim>\<open>False\<close> at line 54 and \<^verbatim>\<open>df[is_win]\<close> raises \<^verbatim>\<open>KeyError\<close>. (With one of
  the two fields the classifier returns, lemma \<open>split_logs_with_signal\<close>, and whenever it
  returns, lemma \<open>split_logs_subseq\<close> gives the two subsequences.)
\<close>

theorem split_logs_raises_without_source:
  "split_logs \<lparr>columns = [''EventCode''], rows = [blank_row(''EventCode'' := Str ''4625'')]\<rparr>
     = Inl KeyError"
  by (rule split_logs_no_signal) simp_all

text \<open>
  C6. The claim: with neither a \<^verbatim>\<open>sourcetype\<close> nor a \<^verbatim>\<open>source\<close> field, the DNS subset
  is the whole input when a field name is one of the DNS field names, and empty otherwise.
  On a frame whose only field is \<^verbatim>\<open>query\<close> the classifier raises \<^verbatim>\<open>KeyError\<close> at line 54,
  before the DNS selector of lines 62 to 65 is computed, and returns no DNS subset.
\<close>

theorem split_logs_raises_on_dns_fallback:
  "split_logs \<lparr>columns = [''query''], rows = [blank_row(''query'' := Str ''example.com'')]\<rparr>
     = Inl KeyError"
  by (rule split_logs_no_signal) simp_all

section \<open>Claims on the Windows rule scorer\<close>

text \<open>
  C3. Under either release of pandas: for a Windows subset whose identifier field holds only \<^verbatim>\<open>4625\<close>, five times, and
  \<^verbatim>\<open>4688\<close>, three times, in any order, the scorer returns exactly the two rows
  (\<^verbatim>\<open>WinEventLog\<close>, \<^verbatim>\<open>Failed logon (4625)\<close>, 5) and
  (\<^verbatim>\<open>WinEventLog\<close>, \<^verbatim>\<open>Process created (4688)\<close>, 3), in that order: largest count first,
  each identifier replaced by its catalog label.
\<close>

theorem wineventlog_known_ids:
  assumes "first_present event_cols (columns win_df) = Some ec"
    and "set (texts win_df ec) \<subseteq> {''4625'', ''4688''}"
    and "count_list (texts win_df ec) ''4625'' = 5"
    and "count_list (texts win_df ec) ''4688'' = 3"
  shows "fst (suspicious_wineventlog v win_df) =
           Inr [(''WinEventLog'', ''Failed logon (4625)'', 5),
                (''WinEventLog'', ''Process created (4688)'', 3)]"
proof -
  let ?xs = "texts win_df ec"
  have a: "''4625'' \<in> set ?xs"
    using assms(3) count_notin [of "''4625''" ?xs] by auto
  have b: "''4688'' \<in> set ?xs"
    using assms(4) count_notin [of "''4688''" ?xs] by auto
  from a b assms(2) have s: "set ?xs = {''4625'', ''4688''}" by auto
  have "\<forall>k \<in> set ?xs. is_suspicious k"
    unfolding s by (simp add: is_suspicious_def suspicious_ids_def)
  then have all: "filter is_suspicious ?xs = ?xs" by simp
  from a have ne: "?xs \<noteq> []" by auto
  have "value_counts ?xs = [(''4625'', count_list ?xs ''4625''), (''4688'', count_list ?xs ''4688'')]"
    using s by (rule value_counts_two) (simp add: assms(3,4))
  then have vc: "value_counts ?xs = [(''4625'', 5), (''4688'', 3)]"
    by (simp add: assms(3,4))
  show ?thesis
    unfolding wineventlog_ranking [OF assms(1)] all vc
    using ne by (simp add: label_of_def suspicious_ids_def)
qed

theorem wineventlog_known_ids_witness:
  "first_present event_cols (columns logon_events) = Some ''EventCode''
   \<and> set (texts logon_events ''EventCode'') \<subseteq> {''4625'', ''4688''}
   \<and> count_list (texts logon_events ''EventCode'') ''4625'' = 5
   \<and> count_list (texts logon_events ''EventCode'') ''4688'' = 3
   \<and> fst (suspicious_wineventlog Before_2 logon_events) =
           Inr [(''WinEventLog'', ''Failed logon (4625)'', 5),
                (''WinEventLog'', ''Process created (4688)'', 3)]
   \<and> fst (suspicious_wineventlog From_2 logon_events) =
           Inr [(''WinEventLog'', ''Failed logon (4625)'', 5),
                (''WinEventLog'', ''Process created (4688)'', 3)]"
proof -
  have "str_of_int 4625 = ''4625''" and "str_of_int 4688 = ''4688''"
    by (simp_all add: str_of_int_def str_of_nat.simps digit_char_def)
  then have t: "texts logon_events ''EventCode'' =
      [''4688'', ''4625'', ''4625'', ''4625'', ''4688'', ''4625'', ''4688'', ''4625'']"
    by (simp add: texts_def col_def logon_events_def event_row_def)
  have h1: "first_present event_cols (columns logon_events) = Some ''EventCode''"
    by (simp add: event_cols_def logon_events_def)
  have h2: "set (texts logon_events ''EventCode'') \<subseteq> {''4625'', ''4688''}"
    unfolding t by simp
  have h3: "count_list (texts logon_events ''EventCode'') ''4625'' = 5"
    unfolding t by simp
  have h4: "count_list (texts logon_events ''EventCode'') ''4688'' = 3"
    unfolding t by simp
  from wineventlog_known_ids [OF h1 h2 h3 h4, of Before_2]
    wineventlog_known_ids [OF h1 h2 h3 h4, of From_2] h1 h2 h3 h4
  show ?thesis by blast
qed

text \<open>
  C4. The claim: for a Windows subset that has an identifier field none of whose values is
  a catalog key, the scorer returns the ten most frequent raw identifier values with their
  counts, tagged \<^verbatim>\<open>WinEventLog (top by frequency)\<close>, largest count first; with \<^verbatim>\<open>9999\<close> seven
  times and \<^verbatim>\<open>8888\<close> twice the row of \<^verbatim>\<open>9999\<close> comes first. On that very subset, under
  pandas 2.0 or later, the rename of line 121 finds neither of the labels it names, no
  column is called \<^verbatim>\<open>key\<close>, and line 124 raises \<^verbatim>\<open>KeyError\<close>. (Before pandas 2.0 the scorer
  returns the ranking of the claim, lemma \<open>wineventlog_fallback_before_2\<close> with
  \<open>top_counts_member\<close>, \<open>top_counts_dominate\<close>, \<open>value_counts_sorted\<close> and
  \<open>value_counts_distinct\<close>; the ranking of line 128 sets its labels by position and does
  not depend on the release.)
\<close>

theorem wineventlog_fallback_raises:
  "fst (suspicious_wineventlog From_2 unknown_events) = Inl KeyError"
proof -
  have t: "texts unknown_events ''EventCode'' =
      [''8888'', ''9999'', ''9999'', ''9999'', ''8888'', ''9999'', ''9999'', ''9999'', ''9999'']"
    by (simp add: texts_def col_def unknown_events_def event_row_def)
  have h1: "first_present event_cols (columns unknown_events) = Some ''EventCode''"
    by (simp add: event_cols_def unknown_events_def)
  have h2: "filter is_suspicious (texts unknown_events ''EventCode'') = []"
    unfolding t by (simp add: is_suspicious_def suspicious_ids_def)
  have h3: "rows unknown_events \<noteq> []"
    by (simp add: unknown_events_def)
  from h1 h2 h3 show ?thesis by (rule wineventlog_fallback_from_2)
qed




section \<open>Claims on the DNS heuristic scorer\<close>

text \<open>
  C5. Every record of the DNS subset is flagged as a weird subdomain exactly when its query
  name has at least 40 characters, or at least 5 dots, or at least 10 digits; hence every
  row of the ranking \<^verbatim>\<open>DNS (weird subdomains)\<close> names a query name over one of the three
  thresholds. For the query name \<^verbatim>\<open>a.b.c.d.e.f.example.com\<close> the number of dots is 7, the
  record is flagged, and its domain is \<^verbatim>\<open>example.com\<close>.
\<close>

theorem dns_weird_flag:
  "(\<forall>w \<in> set (dns_work dns_df query_col).
      w \<in> set (suspicious_q (dns_work dns_df query_col)) \<longleftrightarrow>
        (40 \<le> length (qname w) \<or> 5 \<le> length (filter is_dot (qname w))
          \<or> 10 \<le> length (filter is_digit (qname w))))
   \<and> (\<forall>r \<in> set (suspicious_dns dns_df). fst r = ''DNS (weird subdomains)'' \<longrightarrow>
        (40 \<le> length (fst (snd r)) \<or> 5 \<le> length (filter is_dot (fst (snd r)))
          \<or> 10 \<le> length (filter is_digit (fst (snd r)))))
   \<and> qname_of ''a.b.c.d.e.f.example.com'' = ''a.b.c.d.e.f.example.com''
   \<and> dots (features ''a.b.c.d.e.f.example.com'') = 7
   \<and> weird (features ''a.b.c.d.e.f.example.com'')
   \<and> domain (features ''a.b.c.d.e.f.example.com'') = ''example.com''"
proof -
  have a: "\<forall>w \<in> set (dns_work dns_df query_col).
      w \<in> set (suspicious_q (dns_work dns_df query_col)) \<longleftrightarrow>
        (40 \<le> length (qname w) \<or> 5 \<le> length (filter is_dot (qname w))
          \<or> 10 \<le> length (filter is_digit (qname w)))"
    using weird_iff [of _ dns_df query_col] by (simp add: suspicious_q_def)
  have b: "\<forall>r \<in> set (suspicious_dns dns_df). fst r = ''DNS (weird subdomains)'' \<longrightarrow>
        (40 \<le> length (fst (snd r)) \<or> 5 \<le> length (filter is_dot (fst (snd r)))
          \<or> 10 \<le> length (filter is_digit (fst (snd r))))"
    using weird_rows_keys [of _ dns_df] by blast
  have c: "qname_of ''a.b.c.d.e.f.example.com'' = ''a.b.c.d.e.f.example.com''"
    by code_simp
  have d: "dots (features ''a.b.c.d.e.f.example.com'') = 7"
    by (simp add: features_def is_dot_def)
  have e: "weird (features ''a.b.c.d.e.f.example.com'')"
    by (simp add: weird_def features_def is_dot_def)
  have f: "domain (features ''a.b.c.d.e.f.example.com'') = ''example.com''"
    by code_simp
  from a b c d e f show ?thesis by blast
qed

theorem dns_weird_flag_witness:
  "features ''a.b.c.d.e.f.example.com'' \<in> set (dns_work deep_queries ''query'')
   \<and> features ''a.b.c.d.e.f.example.com'' \<in> set (suspicious_q (dns_work deep_queries ''query''))
   \<and> features ''example.com'' \<in> set (dns_work deep_queries ''query'')
   \<and> features ''example.com'' \<notin> set (suspicious_q (dns_work deep_queries ''query''))
   \<and> suspicious_dns deep_queries =
        [(''DNS (rare domains)'', ''example.com'', 2),
         (''DNS (weird subdomains)'', ''a.b.c.d.e.f.example.com'', 1)]"
proof -
  have q1: "qname_of ''a.b.c.d.e.f.example.com'' = ''a.b.c.d.e.f.example.com''"
    by code_simp
  have q2: "qname_of ''Example.com'' = ''example.com''"
    by code_simp
  have w: "dns_work deep_queries ''query'' =
      [features ''a.b.c.d.e.f.example.com'', features ''example.com'']"
    by (simp add: dns_work_def texts_def col_def deep_queries_def query_row_def q1 q2)
  have l1: "length (filter is_dot ''a.b.c.d.e.f.example.com'') = 7"
    by (simp add: is_dot_def)
  have l2: "length (filter is_dot ''example.com'') = 1"
    "length (filter is_digit ''example.com'') = 0"
    by (simp_all add: is_dot_def is_digit_def code_of_def)
  have m1: "features ''a.b.c.d.e.f.example.com'' \<in> set (dns_work deep_queries ''query'')"
    and m2: "features ''example.com'' \<in> set (dns_work deep_queries ''query'')"
    unfolding w by simp_all
  have s1: "features ''a.b.c.d.e.f.example.com'' \<in> set (suspicious_q (dns_work deep_queries ''query''))"
    using dns_weird_flag [of deep_queries "''query''"] m1 l1
    by (simp add: features_def)
  have s2: "features ''example.com'' \<notin> set (suspicious_q (dns_work deep_queries ''query''))"
    using dns_weird_flag [of deep_queries "''query''"] m2 l2
    by (simp add: features_def)
  have out: "suspicious_dns deep_queries =
        [(''DNS (rare domains)'', ''example.com'', 2),
         (''DNS (weird subdomains)'', ''a.b.c.d.e.f.example.com'', 1)]"
    by code_simp
  from m1 m2 s1 s2 out show ?thesis by blast
qed

section \<open>Claims on the aggregator\<close>

text \<open>
  C7. For every list of ranking rows the aggregator gives one row for each pair
  (category, key) that occurs in the input, its count the sum of the counts of the input
  rows with that pair, and the rows are ordered by summed count, largest first. For the rows
  (\<^verbatim>\<open>WinEventLog\<close>, X, 3), (\<^verbatim>\<open>DNS (rare domains)\<close>, Y, 2), (\<^verbatim>\<open>WinEventLog\<close>, X, 1) the result
  is exactly (\<^verbatim>\<open>WinEventLog\<close>, X, 4), (\<^verbatim>\<open>DNS (rare domains)\<close>, Y, 2).
\<close>

theorem combined_top_groups:
  "sorted_wrt (\<lambda>r r'. count_of r' \<le> count_of r) (combined_top rs)
   \<and> distinct (map group_key (combined_top rs))
   \<and> set (map group_key (combined_top rs)) = set (map group_key rs)
   \<and> (\<forall>r \<in> set (combined_top rs).
        count_of r = sum_list (map count_of (filter (\<lambda>x. group_key x = group_key r) rs)))"
proof -
  have "set (map group_key (combined_top rs)) = set (map group_key (group_sum rs))"
    by (simp add: combined_top_set)
  then have k: "set (map group_key (combined_top rs)) = set (map group_key rs)"
    by (simp only: group_sum_keys) simp
  have c: "\<forall>r \<in> set (combined_top rs).
        count_of r = sum_list (map count_of (filter (\<lambda>x. group_key x = group_key r) rs))"
    using group_sum_count [of _ rs] by (simp add: combined_top_set)
  from combined_top_sorted combined_top_distinct k c show ?thesis by blast
qed

theorem combined_top_groups_witness:
  "combined_top scorer_rows = [(''WinEventLog'', ''X'', 4), (''DNS (rare domains)'', ''Y'', 2)]
   \<and> (''WinEventLog'', ''X'', 4) \<in> set (combined_top scorer_rows)
   \<and> count_of (''WinEventLog'', ''X'', 4)
       = sum_list (map count_of (filter (\<lambda>x. group_key x = group_key (''WinEventLog'', ''X'', 4)) scorer_rows))"
proof -
  have e: "combined_top scorer_rows = [(''WinEventLog'', ''X'', 4), (''DNS (rare domains)'', ''Y'', 2)]"
    by code_simp
  then have m: "(''WinEventLog'', ''X'', 4) \<in> set (combined_top scorer_rows)"
    by simp
  from combined_top_groups [of scorer_rows] m e show ?thesis by blast
qed

section \<open>Claims on the field normalizer\<close>



section \<open>Claims on the domain approximation\<close>

text \<open>
  C10. \<^verbatim>\<open>extract_domain\<close> is total: for every value that is not a text, and for the empty
  text, it returns the empty text. For a non-empty text it strips the leading and trailing
  dots and lowers the case before it splits into labels, and returns that text when it has
  at most two labels, its last two labels joined by a dot otherwise; \<^verbatim>\<open>Example.com.\<close> gives
  \<^verbatim>\<open>example.com\<close>.
\<close>

theorem extract_domain_total:
  "((\<forall>s. v \<noteq> Str s) \<or> v = Str [] \<longrightarrow> extract_domain v = [])
   \<and> (s \<noteq> [] \<longrightarrow>
        extract_domain (Str s) =
          (if length (split_on (CHR ''.'') (lower (strip_chars is_dot s))) \<le> 2
           then lower (strip_chars is_dot s)
           else join ''.'' (drop (length (split_on (CHR ''.'') (lower (strip_chars is_dot s))) - 2)
                  (split_on (CHR ''.'') (lower (strip_chars is_dot s))))))
   \<and> extract_domain (Str ''Example.com.'') = ''example.com''"
proof -
  have a: "(\<forall>s. v \<noteq> Str s) \<or> v = Str [] \<longrightarrow> extract_domain v = []"
    by (cases v) auto
  have b: "s \<noteq> [] \<longrightarrow>
        extract_domain (Str s) =
          (if length (split_on (CHR ''.'') (lower (strip_chars is_dot s))) \<le> 2
           then lower (strip_chars is_dot s)
           else join ''.'' (drop (length (split_on (CHR ''.'') (lower (strip_chars is_dot s))) - 2)
                  (split_on (CHR ''.'') (lower (strip_chars is_dot s)))))"
    by (simp add: Let_def)
  have c: "extract_domain (Str ''Example.com.'') = ''example.com''"
    by code_simp
  show ?thesis by (rule conjI [OF a conjI [OF b c]])
qed

theorem extract_domain_total_witness:
  "extract_domain NaN = []
   \<and> ''WWW.Mail.Example.com.'' \<noteq> []
   \<and> extract_domain (Str ''WWW.Mail.Example.com.'') = ''example.com''"
proof -
  have h: "(\<forall>s. NaN \<noteq> Str s) \<or> NaN = Str []" by simp
  have n: "''WWW.Mail.Example.com.'' \<noteq> []" by simp
  note t = extract_domain_total [of NaN "''WWW.Mail.Example.com.''"]
  have a: "extract_domain NaN = []"
    by (rule t [THEN conjunct1, rule_format, OF h])
  have q: "lower (strip_chars is_dot ''WWW.Mail.Example.com.'') = ''www.mail.example.com''"
    by code_simp
  have p: "split_on (CHR ''.'') ''www.mail.example.com'' = [''www'', ''mail'', ''example'', ''com'']"
    by simp
  have "extract_domain (Str ''WWW.Mail.Example.com.'') =
          (if length (split_on (CHR ''.'') (lower (strip_chars is_dot ''WWW.Mail.Example.com.''))) \<le> 2
           then lower (strip_chars is_dot ''WWW.Mail.Example.com.'')
           else join ''.'' (drop (length (split_on (CHR ''.'') (lower (strip_chars is_dot ''WWW.Mail.Example.com.''))) - 2)
                  (split_on (CHR ''.'') (lower (strip_chars is_dot ''WWW.Mail.Example.com.'')))))"
    by (rule t [THEN conjunct2, THEN conjunct1, rule_format, OF n])
  then have b: "extract_domain (Str ''WWW.Mail.Example.com.'') = ''example.com''"
    unfolding q p by simp
  show ?thesis by (rule conjI [OF a conjI [OF n b]])
qed

section \<open>Claims on empty input\<close>

text \<open>
  C1. The claim: every component gives an empty result on an empty record set or subset and
  none raises. The normalizer, the two scorers and the aggregator do so, but the classifier,
  applied to the frame of an empty list of records (no column, no row), raises
  \<^verbatim>\<open>KeyError\<close> at line 54.
\<close>

theorem empty_input_components:
  "split_logs no_records = Inl KeyError
   \<and> normalize_time parse no_records = no_records
   \<and> suspicious_wineventlog v no_records = (Inr [], no_records)
   \<and> suspicious_dns no_records = []
   \<and> combined_top [] = []"
proof -
  have a: "split_logs no_records = Inl KeyError"
    by (rule split_logs_no_signal) (simp_all add: no_records_def)
  have b: "normalize_time parse no_records = no_records"
    by (simp add: normalize_time_def no_records_def)
  have "rows no_records = []" by (simp add: no_records_def)
  then have c: "suspicious_wineventlog v no_records = (Inr [], no_records)
      \<and> suspicious_dns no_records = []"
    by (rule scorers_on_no_rows)
  have d: "combined_top [] = []"
    by (simp add: combined_top_def group_sum_def)
  from a b c d show ?thesis by simp
qed

end
